theory Spec2Isabelle
  imports Complex_Main
begin

section \<open>The reasoning graph of \<^verbatim>\<open>scripts/reasoning_graph.py\<close>\<close>

text \<open>
  The module defines a small cyclic workflow: four node functions and two routers over a
  shared state dictionary, wired together by \<^verbatim>\<open>ReasoningGraph.build_graph\<close> and executed
  by a graph engine. The embedding keeps the state as a record of optional fields (a key
  of the dictionary is either absent or holds a value of the type that the
  \<^verbatim>\<open>OverallState\<close> declaration gives it), turns every \<^verbatim>\<open>KeyError\<close> into an error value, and
  runs the engine loop on fuel.
\<close>

subsection \<open>Values\<close>

text \<open>
  Python floats. Finite values are read as reals; the three special values are kept
  apart because an ordering test with \<^verbatim>\<open>nan\<close> is false in Python. The only float
  operation of the module is the test \<^verbatim>\<open>quality_score < 0.75\<close>, and the only float
  constants are 0, 0.5, 0.75 and 0.8, on which the order of the doubles and the order
  of the reals agree.
\<close>

datatype pyfloat = Finite real | PosInf | NegInf | NaN

fun float_lt :: "pyfloat \<Rightarrow> pyfloat \<Rightarrow> bool" where
  "float_lt NaN _ = False"
| "float_lt _ NaN = False"
| "float_lt (Finite x) (Finite y) = (x < y)"
| "float_lt (Finite _) PosInf = True"
| "float_lt (Finite _) NegInf = False"
| "float_lt PosInf _ = False"
| "float_lt NegInf NegInf = False"
| "float_lt NegInf _ = True"

fun float_le :: "pyfloat \<Rightarrow> pyfloat \<Rightarrow> bool" where
  "float_le NaN _ = False"
| "float_le _ NaN = False"
| "float_le (Finite x) (Finite y) = (x \<le> y)"
| "float_le (Finite _) PosInf = True"
| "float_le (Finite _) NegInf = False"
| "float_le PosInf PosInf = True"
| "float_le PosInf _ = False"
| "float_le NegInf _ = True"

text \<open>Python's \<^verbatim>\<open>str\<close> of an integer, as the f-strings of the nodes format it.\<close>

fun str_nat :: "nat \<Rightarrow> string" where
  "str_nat n =
     (if n < 10 then [''0123456789'' ! n]
      else str_nat (n div 10) @ [''0123456789'' ! (n mod 10)])"

declare str_nat.simps [simp del]

definition str_int :: "int \<Rightarrow> string" where
  "str_int i = (if i < 0 then CHR ''-'' # str_nat (nat (- i)) else str_nat (nat i))"

subsection \<open>The state\<close>

text \<open>
  \<^verbatim>\<open>class OverallState(TypedDict)\<close>: six keys. The nodes test for absent keys
  (\<^verbatim>\<open>"iteration_count" not in state\<close>, \<^verbatim>\<open>state.get(key, default)\<close>), so every field is
  optional: \<open>None\<close> is an absent key.
\<close>

record OverallState =
  query :: "string option"
  search_results :: "string list option"
  reflections :: "string list option"
  final_answer :: "string option"
  iteration_count :: "int option"
  quality_score :: "pyfloat option"

text \<open>
  What can abort a construction or a run: Python's \<^verbatim>\<open>KeyError\<close> with the missing key,
  and the error kinds of the engine.
\<close>

datatype error =
    KeyError string
  | BuildError
  | RouterContractViolation string
  | DeadEnd string

text \<open>\<^verbatim>\<open>state.get(key, default)\<close> for the four keys that the module reads that way.\<close>

definition get_iteration_count :: "OverallState \<Rightarrow> int" where
  "get_iteration_count st = (case iteration_count st of None \<Rightarrow> 0 | Some n \<Rightarrow> n)"

definition get_quality_score :: "OverallState \<Rightarrow> pyfloat" where
  "get_quality_score st = (case quality_score st of None \<Rightarrow> Finite 0 | Some q \<Rightarrow> q)"

definition get_search_results :: "OverallState \<Rightarrow> string list" where
  "get_search_results st = (case search_results st of None \<Rightarrow> [] | Some xs \<Rightarrow> xs)"

definition get_reflections :: "OverallState \<Rightarrow> string list" where
  "get_reflections st = (case reflections st of None \<Rightarrow> [] | Some xs \<Rightarrow> xs)"

subsection \<open>The nodes\<close>

text \<open>
  Every node takes the state and returns it updated; a failed subscript
  \<^verbatim>\<open>state['key']\<close> is \<open>Inl (KeyError key)\<close>, and the state that the node had changed
  before it raised is lost with the run. \<^verbatim>\<open>generate_query\<close> also reads
  \<^verbatim>\<open>state.get("query", "")\<close> into a local that it never uses. \<^verbatim>\<open>web_research\<close> writes
  the counter first (line 67) and subscripts \<^verbatim>\<open>state['query']\<close> afterwards (lines 71-72);
  \<^verbatim>\<open>reflection\<close> subscripts \<^verbatim>\<open>state['iteration_count']\<close> (line 80) before it writes
  anything.
\<close>

definition generate_query :: "OverallState \<Rightarrow> error + OverallState" where
  "generate_query st =
     (if iteration_count st = None then Inr (st\<lparr>iteration_count := Some 0\<rparr>) else Inr st)"

definition web_research :: "OverallState \<Rightarrow> error + OverallState" where
  "web_research st =
     (let n = get_iteration_count st + 1;
          st1 = st\<lparr>iteration_count := Some n\<rparr>
      in case query st1 of
           None \<Rightarrow> Inl (KeyError ''query'')
         | Some q \<Rightarrow>
             (let results =
                    [''Research finding '' @ str_int n @ '' for: '' @ q,
                     ''Research detail '' @ str_int n @ '' for: '' @ q]
              in Inr (st1\<lparr>search_results := Some (get_search_results st1 @ results)\<rparr>)))"

definition reflection :: "OverallState \<Rightarrow> error + OverallState" where
  "reflection st =
     (case iteration_count st of
        None \<Rightarrow> Inl (KeyError ''iteration_count'')
      | Some n \<Rightarrow>
          (let reflection_text = ''Quality assessment of iteration '' @ str_int n;
               st1 = st\<lparr>reflections := Some (get_reflections st @ [reflection_text])\<rparr>
           in Inr (st1\<lparr>quality_score :=
                          Some (if n \<ge> 2 then Finite 0.8 else Finite 0.5)\<rparr>)))"

definition finalize_answer :: "OverallState \<Rightarrow> error + OverallState" where
  "finalize_answer st =
     Inr (st\<lparr>final_answer :=
               Some (''Final answer based on ''
                     @ str_int (int (length (get_search_results st))) @ '' findings'')\<rparr>)"

subsection \<open>The routers\<close>

definition continue_to_web_research :: "OverallState \<Rightarrow> string" where
  "continue_to_web_research st = ''web_research''"

definition evaluate_research :: "OverallState \<Rightarrow> string" where
  "evaluate_research st =
     (let qs = get_quality_score st;
          ic = get_iteration_count st
      in if ic \<ge> 3 then ''finalize_answer''
         else if float_lt qs (Finite 0.75) then ''web_research''
         else ''finalize_answer'')"

subsection \<open>The simulated collaborators as parameters\<close>

text \<open>
  \<^verbatim>\<open>web_research\<close> and \<^verbatim>\<open>reflection\<close> simulate their collaborators in line: the two
  result strings of lines 70-73 and the score of line 84. The two definitions below are
  the same nodes with the simulated part taken as an argument, so that a statement can
  range over every retrieval result and every scoring policy; \<open>reference_search\<close> and
  \<open>reference_score\<close> are the simulations of the source, and the nodes of the source are
  the instances at them (lemmas \<open>web_research_reference\<close>, \<open>reflection_reference\<close>).
\<close>

definition web_research_with ::
  "(string \<Rightarrow> int \<Rightarrow> string list) \<Rightarrow> OverallState \<Rightarrow> error + OverallState" where
  "web_research_with search st =
     (let n = get_iteration_count st + 1;
          st1 = st\<lparr>iteration_count := Some n\<rparr>
      in case query st1 of
           None \<Rightarrow> Inl (KeyError ''query'')
         | Some q \<Rightarrow>
             Inr (st1\<lparr>search_results := Some (get_search_results st1 @ search q n)\<rparr>))"

definition reflection_with ::
  "(OverallState \<Rightarrow> pyfloat) \<Rightarrow> OverallState \<Rightarrow> error + OverallState" where
  "reflection_with score st =
     (case iteration_count st of
        None \<Rightarrow> Inl (KeyError ''iteration_count'')
      | Some n \<Rightarrow>
          (let reflection_text = ''Quality assessment of iteration '' @ str_int n;
               st1 = st\<lparr>reflections := Some (get_reflections st @ [reflection_text])\<rparr>
           in Inr (st1\<lparr>quality_score := Some (score st1)\<rparr>)))"

definition reference_search :: "string \<Rightarrow> int \<Rightarrow> string list" where
  "reference_search q n =
     [''Research finding '' @ str_int n @ '' for: '' @ q,
      ''Research detail '' @ str_int n @ '' for: '' @ q]"

definition reference_score :: "OverallState \<Rightarrow> pyfloat" where
  "reference_score st = (if get_iteration_count st \<ge> 2 then Finite 0.8 else Finite 0.5)"

subsection \<open>The graph and its engine\<close>

text \<open>
  The sentinel node names of the graph library.
\<close>

definition START :: string where
  "START = ''__start__''"

definition END :: string where
  "END = ''__end__''"

text \<open>
  What \<^verbatim>\<open>build_graph\<close> hands to the builder: the node registry (name and executor), the
  unconditional edges, and the conditional edges (source, router, declared candidate
  targets). The builder calls of the method record their arguments, in the order of
  the calls.
\<close>

record 's graph =
  nodes :: "(string \<times> ('s \<Rightarrow> error + 's)) list"
  edges :: "(string \<times> string) list"
  branches :: "(string \<times> ('s \<Rightarrow> string) \<times> string list) list"

definition StateGraph :: "'s graph" where
  "StateGraph = \<lparr>nodes = [], edges = [], branches = []\<rparr>"

definition add_node :: "string \<Rightarrow> ('s \<Rightarrow> error + 's) \<Rightarrow> 's graph \<Rightarrow> 's graph" where
  "add_node name f b = b\<lparr>nodes := nodes b @ [(name, f)]\<rparr>"

definition add_edge :: "string \<Rightarrow> string \<Rightarrow> 's graph \<Rightarrow> 's graph" where
  "add_edge src tgt b = b\<lparr>edges := edges b @ [(src, tgt)]\<rparr>"

definition add_conditional_edges ::
  "string \<Rightarrow> ('s \<Rightarrow> string) \<Rightarrow> string list \<Rightarrow> 's graph \<Rightarrow> 's graph" where
  "add_conditional_edges src router candidates b =
     b\<lparr>branches := branches b @ [(src, router, candidates)]\<rparr>"

text \<open>
  Modelled from the spec: the validation at graph construction. The builder and its
  \<^verbatim>\<open>compile\<close> belong to the graph library, which is not part of the sources; sections 3
  and 7 of the specification say what they check: an edge must not reference an
  undeclared node (the sentinels START and END apart), and the declared candidate set of
  every conditional edge must be a subset of the node registry. Anything else is a
  \<open>BuildError\<close>.
\<close>

definition declared :: "'s graph \<Rightarrow> string \<Rightarrow> bool" where
  "declared b name = (name \<in> set (map fst (nodes b)))"

definition edge_ok :: "'s graph \<Rightarrow> string \<times> string \<Rightarrow> bool" where
  "edge_ok b e =
     ((fst e = START \<or> declared b (fst e)) \<and> (snd e = END \<or> declared b (snd e)))"

definition branch_ok :: "'s graph \<Rightarrow> string \<times> ('s \<Rightarrow> string) \<times> string list \<Rightarrow> bool" where
  "branch_ok b br = (declared b (fst br) \<and> list_all (declared b) (snd (snd br)))"

text \<open>
  Modelled from the spec: \<^verbatim>\<open>compile\<close> fails fast, before any run, when an edge or a
  candidate set names a node that the registry does not have.
\<close>

definition compile :: "'s graph \<Rightarrow> error + 's graph" where
  "compile b =
     (if list_all (edge_ok b) (edges b) \<and> list_all (branch_ok b) (branches b)
      then Inr b else Inl BuildError)"

text \<open>
  \<^verbatim>\<open>build_graph\<close>, lines 111-153, with the two nodes that stand for collaborators as
  arguments (the method registers \<^verbatim>\<open>self.web_research\<close> and \<^verbatim>\<open>self.reflection\<close>);
  \<open>build_graph\<close> is the graph of the source.
\<close>

definition build_graph_with ::
  "(OverallState \<Rightarrow> error + OverallState) \<Rightarrow> (OverallState \<Rightarrow> error + OverallState)
     \<Rightarrow> error + OverallState graph" where
  "build_graph_with research reflect =
     (let builder = StateGraph;
          builder = add_node ''generate_query'' generate_query builder;
          builder = add_node ''web_research'' research builder;
          builder = add_node ''reflection'' reflect builder;
          builder = add_node ''finalize_answer'' finalize_answer builder;
          builder = add_edge START ''generate_query'' builder;
          builder = add_conditional_edges ''generate_query'' continue_to_web_research
                      [''web_research''] builder;
          builder = add_edge ''web_research'' ''reflection'' builder;
          builder = add_conditional_edges ''reflection'' evaluate_research
                      [''web_research'', ''finalize_answer''] builder;
          builder = add_edge ''finalize_answer'' END builder
      in compile builder)"

definition build_graph :: "error + OverallState graph" where
  "build_graph = build_graph_with web_research reflection"

text \<open>
  Modelled from the spec: the execution engine (\<^verbatim>\<open>graph.invoke\<close> of the graph library,
  which is not part of the sources), as section 4.4 of the specification describes it.
  A configuration is the current node and the current state; \<open>executed\<close> is a history
  variable, the names of the nodes whose executors have completed, in order. One
  \<open>step\<close> is steps 3 to 5 of the loop: invoke the executor of the current node if it has
  one (START has none), then follow its unconditional edge or ask its router, whose
  answer must be one of the declared candidates. The specification does not say what
  happens at a node without any outgoing edge; the model stops there with \<open>DeadEnd\<close>.
\<close>

record 's config =
  cur :: string
  state :: 's
  executed :: "string list"

definition invoke_node :: "'s graph \<Rightarrow> 's config \<Rightarrow> error + 's config" where
  "invoke_node g c =
     (case map_of (nodes g) (cur c) of
        None \<Rightarrow> Inr c
      | Some f \<Rightarrow>
          (case f (state c) of
             Inl e \<Rightarrow> Inl e
           | Inr s \<Rightarrow> Inr (c\<lparr>state := s, executed := executed c @ [cur c]\<rparr>)))"

definition next_node :: "'s graph \<Rightarrow> string \<Rightarrow> 's \<Rightarrow> error + string" where
  "next_node g name s =
     (case map_of (edges g) name of
        Some tgt \<Rightarrow> Inr tgt
      | None \<Rightarrow>
          (case map_of (branches g) name of
             None \<Rightarrow> Inl (DeadEnd name)
           | Some (router, candidates) \<Rightarrow>
               (let tgt = router s
                in if tgt \<in> set candidates then Inr tgt
                   else Inl (RouterContractViolation tgt))))"

definition step :: "'s graph \<Rightarrow> 's config \<Rightarrow> error + 's config" where
  "step g c =
     (case invoke_node g c of
        Inl e \<Rightarrow> Inl e
      | Inr c1 \<Rightarrow>
          (case next_node g (cur c1) (state c1) of
             Inl e \<Rightarrow> Inl e
           | Inr tgt \<Rightarrow> Inr (c1\<lparr>cur := tgt\<rparr>)))"

text \<open>
  Modelled from the spec: the loop of section 4.4, bounded by fuel. \<open>steps g k c\<close> is the configuration after at most \<open>k\<close>
  iterations from \<open>c\<close>; it stays where it is once the current node is END, and it is the
  error of the first step that fails.
\<close>

fun steps :: "'s graph \<Rightarrow> nat \<Rightarrow> 's config \<Rightarrow> error + 's config" where
  "steps g 0 c = Inr c"
| "steps g (Suc k) c =
     (if cur c = END then Inr c
      else case step g c of Inl e \<Rightarrow> Inl e | Inr c1 \<Rightarrow> steps g k c1)"

definition initial :: "'s \<Rightarrow> 's config" where
  "initial s = \<lparr>cur = START, state = s, executed = []\<rparr>"

text \<open>
  Modelled from the spec: \<^verbatim>\<open>run(initial_fields)\<close>. The run starts at START on the initial
  mapping as the caller gave it: the source declares no defaults to merge it over, its
  nodes supply a default wherever they read with \<^verbatim>\<open>get\<close>.
  \<open>run_at built k s\<close> is the point that a run on the result of a construction has
  reached after \<open>k\<close> iterations: a failed construction has no runs. \<open>run built fuel s\<close> is
  the outcome of the run: \<open>None\<close> when the fuel does not suffice to reach END, the error
  that aborted the run, or the final configuration.
\<close>

definition run_at :: "error + 's graph \<Rightarrow> nat \<Rightarrow> 's \<Rightarrow> error + 's config" where
  "run_at built k s = (case built of Inl e \<Rightarrow> Inl e | Inr g \<Rightarrow> steps g k (initial s))"

definition run :: "error + 's graph \<Rightarrow> nat \<Rightarrow> 's \<Rightarrow> (error + 's config) option" where
  "run built fuel s =
     (case run_at built fuel s of
        Inl e \<Rightarrow> Some (Inl e)
      | Inr c \<Rightarrow> if cur c = END then Some (Inr c) else None)"

text \<open>
  The graph that \<^verbatim>\<open>build_graph\<close> wires, written out: the construction succeeds and
  returns it (lemma \<open>build_graph_with_wired\<close>).
\<close>

definition wired ::
  "(OverallState \<Rightarrow> error + OverallState) \<Rightarrow> (OverallState \<Rightarrow> error + OverallState)
     \<Rightarrow> OverallState graph" where
  "wired research reflect =
     \<lparr>nodes = [(''generate_query'', generate_query), (''web_research'', research),
               (''reflection'', reflect), (''finalize_answer'', finalize_answer)],
      edges = [(START, ''generate_query''), (''web_research'', ''reflection''),
               (''finalize_answer'', END)],
      branches = [(''generate_query'', continue_to_web_research, [''web_research'']),
                  (''reflection'', evaluate_research,
                   [''web_research'', ''finalize_answer''])]\<rparr>"

subsection \<open>Concrete inputs\<close>

text \<open>
  The input of the end-to-end scenario, \<^verbatim>\<open>{"query": "test"}\<close>, and the final
  configuration of its run.
\<close>

definition scenario_input :: OverallState where
  "scenario_input =
     \<lparr>query = Some ''test'', search_results = None, reflections = None,
      final_answer = None, iteration_count = None, quality_score = None\<rparr>"

definition scenario_final :: "OverallState config" where
  "scenario_final =
     \<lparr>cur = END,
      state =
        \<lparr>query = Some ''test'',
         search_results =
           Some [''Research finding 1 for: test'', ''Research detail 1 for: test'',
                 ''Research finding 2 for: test'', ''Research detail 2 for: test''],
         reflections =
           Some [''Quality assessment of iteration 1'', ''Quality assessment of iteration 2''],
         final_answer = Some ''Final answer based on 4 findings'',
         iteration_count = Some 2,
         quality_score = Some (Finite 0.8)\<rparr>,
      executed =
        [''generate_query'', ''web_research'', ''reflection'',
         ''web_research'', ''reflection'', ''finalize_answer'']\<rparr>"

text \<open>
  The same input with a counter that the caller has set already,
  \<^verbatim>\<open>{"query": "test", "iteration_count": 5}\<close>, and the final configuration of its run.
\<close>

definition preset_input :: OverallState where
  "preset_input = scenario_input\<lparr>iteration_count := Some 5\<rparr>"

definition preset_final :: "OverallState config" where
  "preset_final =
     \<lparr>cur = END,
      state =
        \<lparr>query = Some ''test'',
         search_results =
           Some [''Research finding 6 for: test'', ''Research detail 6 for: test''],
         reflections = Some [''Quality assessment of iteration 6''],
         final_answer = Some ''Final answer based on 2 findings'',
         iteration_count = Some 6,
         quality_score = Some (Finite 0.8)\<rparr>,
      executed =
        [''generate_query'', ''web_research'', ''reflection'', ''finalize_answer'']\<rparr>"

text \<open>
  A counter set below zero, \<^verbatim>\<open>{"query": "test", "iteration_count": -2}\<close>, and the final
  configuration of its run.
\<close>

definition negative_input :: OverallState where
  "negative_input = scenario_input\<lparr>iteration_count := Some (- 2)\<rparr>"

definition negative_final :: "OverallState config" where
  "negative_final =
     \<lparr>cur = END,
      state =
        \<lparr>query = Some ''test'',
         search_results =
           Some [''Research finding -1 for: test'', ''Research detail -1 for: test'',
                 ''Research finding 0 for: test'', ''Research detail 0 for: test'',
                 ''Research finding 1 for: test'', ''Research detail 1 for: test'',
                 ''Research finding 2 for: test'', ''Research detail 2 for: test''],
         reflections =
           Some [''Quality assessment of iteration -1'', ''Quality assessment of iteration 0'',
                 ''Quality assessment of iteration 1'', ''Quality assessment of iteration 2''],
         final_answer = Some ''Final answer based on 8 findings'',
         iteration_count = Some 2,
         quality_score = Some (Finite 0.8)\<rparr>,
      executed =
        [''generate_query'', ''web_research'', ''reflection'', ''web_research'',
         ''reflection'', ''web_research'', ''reflection'', ''web_research'',
         ''reflection'', ''finalize_answer'']\<rparr>"

text \<open>
  The point of the scenario run at which \<^verbatim>\<open>reflection\<close> is about to execute for the
  second time.
\<close>

definition scenario_second_reflection :: "OverallState config" where
  "scenario_second_reflection =
     \<lparr>cur = ''reflection'',
      state =
        \<lparr>query = Some ''test'',
         search_results =
           Some [''Research finding 1 for: test'', ''Research detail 1 for: test'',
                 ''Research finding 2 for: test'', ''Research detail 2 for: test''],
         reflections = Some [''Quality assessment of iteration 1''],
         final_answer = None,
         iteration_count = Some 2,
         quality_score = Some (Finite 0.5)\<rparr>,
      executed = [''generate_query'', ''web_research'', ''reflection'', ''web_research'']\<rparr>"

text \<open>A scoring policy that always reports a quality below the threshold.\<close>

definition always_low :: "OverallState \<Rightarrow> pyfloat" where
  "always_low st = Finite 0.5"

text \<open>
  A construction whose second conditional edge declares the candidate
  \<^verbatim>\<open>"summarize"\<close>, a name that no \<^verbatim>\<open>add_node\<close> has registered.
\<close>

definition misdeclared_builder :: "OverallState graph" where
  "misdeclared_builder =
     (let builder = StateGraph;
          builder = add_node ''generate_query'' generate_query builder;
          builder = add_node ''web_research'' web_research builder;
          builder = add_node ''reflection'' reflection builder;
          builder = add_node ''finalize_answer'' finalize_answer builder;
          builder = add_edge START ''generate_query'' builder;
          builder = add_conditional_edges ''generate_query'' continue_to_web_research
                      [''web_research''] builder;
          builder = add_edge ''web_research'' ''reflection'' builder;
          builder = add_conditional_edges ''reflection'' evaluate_research
                      [''web_research'', ''summarize''] builder;
          builder = add_edge ''finalize_answer'' END builder
      in builder)"

text \<open>
  The decision of the router as the specification words it, on the pair of the two
  values that the router reads.
\<close>

definition evaluate_research_spec :: "int \<Rightarrow> pyfloat \<Rightarrow> string" where
  "evaluate_research_spec n q =
     (if n \<ge> 3 then ''finalize_answer''
      else if float_lt q (Finite 0.75) then ''web_research''
      else ''finalize_answer'')"

section \<open>Properties\<close>

subsection \<open>The construction and the single steps of the graph\<close>

lemma build_graph_with_wired: "build_graph_with research reflect = Inr (wired research reflect)"
  by (simp add: build_graph_with_def wired_def compile_def add_node_def add_edge_def
      add_conditional_edges_def StateGraph_def edge_ok_def branch_ok_def declared_def)

lemma web_research_reference: "web_research = web_research_with reference_search"
  by (rule ext) (simp add: web_research_def web_research_with_def reference_search_def Let_def
      split: option.splits)

lemma reflection_reference: "reflection = reflection_with reference_score"
  by (rule ext)
    (simp add: reflection_def reflection_with_def reference_score_def get_iteration_count_def
      Let_def split: option.splits)

lemma evaluate_research_cases:
  "evaluate_research st = ''web_research'' \<or> evaluate_research st = ''finalize_answer''"
  by (simp add: evaluate_research_def Let_def)

lemma step_START:
  "cur c = START \<Longrightarrow> step (wired research reflect) c = Inr (c\<lparr>cur := ''generate_query''\<rparr>)"
  by (simp add: step_def invoke_node_def next_node_def wired_def START_def)

lemma step_generate_query:
  "cur c = ''generate_query'' \<Longrightarrow>
   step (wired research reflect) c =
     (case generate_query (state c) of
        Inl e \<Rightarrow> Inl e
      | Inr s \<Rightarrow> Inr \<lparr>cur = ''web_research'', state = s,
                       executed = executed c @ [''generate_query'']\<rparr>)"
  by (simp add: step_def invoke_node_def next_node_def wired_def START_def END_def
      continue_to_web_research_def split: sum.splits)

lemma step_web_research:
  "cur c = ''web_research'' \<Longrightarrow>
   step (wired research reflect) c =
     (case research (state c) of
        Inl e \<Rightarrow> Inl e
      | Inr s \<Rightarrow> Inr \<lparr>cur = ''reflection'', state = s,
                       executed = executed c @ [''web_research'']\<rparr>)"
  by (simp add: step_def invoke_node_def next_node_def wired_def START_def END_def
      split: sum.splits)

lemma step_reflection:
  "cur c = ''reflection'' \<Longrightarrow>
   step (wired research reflect) c =
     (case reflect (state c) of
        Inl e \<Rightarrow> Inl e
      | Inr s \<Rightarrow> Inr \<lparr>cur = evaluate_research s, state = s,
                       executed = executed c @ [''reflection'']\<rparr>)"
  using evaluate_research_cases
  by (auto simp add: step_def invoke_node_def next_node_def wired_def START_def END_def
      split: sum.splits)

lemma step_finalize_answer:
  "cur c = ''finalize_answer'' \<Longrightarrow>
   step (wired research reflect) c =
     (case finalize_answer (state c) of
        Inl e \<Rightarrow> Inl e
      | Inr s \<Rightarrow> Inr \<lparr>cur = END, state = s,
                       executed = executed c @ [''finalize_answer'']\<rparr>)"
  by (simp add: step_def invoke_node_def next_node_def wired_def START_def END_def
      split: sum.splits)

lemma step_node:
  assumes "step (wired research reflect) c = Inr c'"
  shows "cur c = START \<or> cur c = ''generate_query'' \<or> cur c = ''web_research''
         \<or> cur c = ''reflection'' \<or> cur c = ''finalize_answer''"
proof (rule ccontr)
  assume other: "\<not> ?thesis"
  then have "invoke_node (wired research reflect) c = Inr c"
    by (simp add: invoke_node_def wired_def)
  moreover from other have "next_node (wired research reflect) (cur c) (state c) = Inl (DeadEnd (cur c))"
    by (simp add: next_node_def wired_def)
  ultimately have "step (wired research reflect) c = Inl (DeadEnd (cur c))"
    by (simp add: step_def)
  with assms show False by simp
qed

lemma generate_query_effect:
  "\<exists>s. generate_query st = Inr s \<and> get_iteration_count s = get_iteration_count st
        \<and> iteration_count s \<noteq> None \<and> query s = query st
        \<and> get_search_results s = get_search_results st
        \<and> get_reflections s = get_reflections st"
  by (auto simp add: generate_query_def get_iteration_count_def get_search_results_def
      get_reflections_def)

lemma web_research_with_effect:
  assumes "web_research_with search st = Inr s"
  shows "\<exists>q. query st = Some q \<and> query s = Some q
          \<and> iteration_count s = Some (get_iteration_count st + 1)
          \<and> get_search_results s
              = get_search_results st @ search q (get_iteration_count st + 1)
          \<and> get_reflections s = get_reflections st"
  using assms
  by (auto simp add: web_research_with_def get_iteration_count_def get_search_results_def
      get_reflections_def Let_def split: option.splits)

lemma web_research_with_query:
  "query st = Some q \<Longrightarrow> \<exists>s. web_research_with search st = Inr s"
  by (simp add: web_research_with_def Let_def)

lemma reflection_with_effect:
  assumes "reflection_with score st = Inr s"
  shows "iteration_count s = iteration_count st \<and> iteration_count st \<noteq> None
          \<and> query s = query st
          \<and> get_search_results s = get_search_results st
          \<and> (\<exists>t. get_reflections s = get_reflections st @ [t])
          \<and> quality_score s \<noteq> None"
  using assms
  by (auto simp add: reflection_with_def get_search_results_def
      get_reflections_def Let_def split: option.splits)

lemma finalize_answer_effect:
  "\<exists>s. finalize_answer st = Inr s \<and> iteration_count s = iteration_count st
        \<and> query s = query st
        \<and> get_search_results s = get_search_results st
        \<and> get_reflections s = get_reflections st
        \<and> quality_score s = quality_score st"
  by (simp add: finalize_answer_def get_search_results_def get_reflections_def)

lemma reflection_with_total:
  assumes "iteration_count st = Some n"
  shows "\<exists>s t. reflection_with score st = Inr s \<and> quality_score s = Some (score t)
          \<and> iteration_count s = Some n \<and> query s = query st"
  using assms by (auto simp add: reflection_with_def Let_def)

lemma evaluate_research_web_research:
  "evaluate_research st = ''web_research'' \<longleftrightarrow>
     get_iteration_count st < 3 \<and> float_lt (get_quality_score st) (Finite 0.75)"
  by (simp add: evaluate_research_def Let_def)

lemma steps_Suc:
  "steps g (Suc k) c =
     (case steps g k c of
        Inl e \<Rightarrow> Inl e
      | Inr c1 \<Rightarrow> if cur c1 = END then Inr c1 else step g c1)"
proof (induction k arbitrary: c)
  case 0
  show ?case by (simp split: sum.splits)
next
  case (Suc k)
  show ?case
  proof (cases "cur c = END")
    case True
    then show ?thesis by simp
  next
    case False
    show ?thesis
    proof (cases "step g c")
      case (Inl e)
      with False show ?thesis by simp
    next
      case (Inr c1)
      with False have "steps g (Suc (Suc k)) c = steps g (Suc k) c1" by simp
      also have "\<dots> = (case steps g k c1 of Inl e \<Rightarrow> Inl e
                        | Inr c2 \<Rightarrow> if cur c2 = END then Inr c2 else step g c2)"
        by (rule Suc.IH)
      also from False Inr have "steps g k c1 = steps g (Suc k) c" by simp
      finally show ?thesis .
    qed
  qed
qed

lemma steps_add:
  "steps g (j + k) c = (case steps g j c of Inl e \<Rightarrow> Inl e | Inr c1 \<Rightarrow> steps g k c1)"
proof (induction j arbitrary: c)
  case 0
  show ?case by simp
next
  case (Suc j)
  show ?case
  proof (cases "cur c = END")
    case True
    then have "steps g k c = Inr c" by (cases k) simp_all
    with True show ?thesis by simp
  next
    case False
    then show ?thesis by (simp add: Suc.IH split: sum.splits)
  qed
qed

lemma steps_END: "cur c = END \<Longrightarrow> steps g k c = Inr c"
  by (cases k) simp_all

lemma steps_invariant:
  assumes pres: "\<And>a b. P a \<Longrightarrow> step g a = Inr b \<Longrightarrow> P b"
    and "P c" and "steps g k c = Inr c'"
  shows "P c'"
  using assms(2,3)
proof (induction k arbitrary: c)
  case 0
  then show ?case by simp
next
  case (Suc k)
  show ?case
  proof (cases "cur c = END")
    case True
    with Suc.prems show ?thesis by simp
  next
    case False
    with Suc.prems obtain c1 where c1: "step g c = Inr c1" and rest: "steps g k c1 = Inr c'"
      by (auto split: sum.splits)
    from pres [OF Suc.prems(1) c1] rest show ?thesis by (rule Suc.IH)
  qed
qed

subsection \<open>What one step changes\<close>

lemma step_effect:
  assumes "step (wired (web_research_with search) (reflection_with score)) c = Inr c'"
  shows "get_iteration_count (state c')
           = get_iteration_count (state c) + (if cur c = ''web_research'' then 1 else 0)"
    and "executed c' = executed c @ (if cur c = START then [] else [cur c])"
    and "query (state c') = query (state c)"
    and "length (get_reflections (state c'))
           = length (get_reflections (state c)) + (if cur c = ''reflection'' then 1 else 0)"
    and "cur c \<noteq> ''web_research'' \<Longrightarrow>
           get_search_results (state c') = get_search_results (state c)"
    and "cur c = ''web_research'' \<Longrightarrow>
           \<exists>q. query (state c) = Some q \<and>
               get_search_results (state c')
                 = get_search_results (state c)
                   @ search q (get_iteration_count (state c) + 1)"
proof -
  let ?g = "wired (web_research_with search) (reflection_with score)"
  from step_node [OF assms]
  consider (start) "cur c = START" | (gq) "cur c = ''generate_query''"
    | (wr) "cur c = ''web_research''" | (rf) "cur c = ''reflection''"
    | (fa) "cur c = ''finalize_answer''"
    by blast
  then have "get_iteration_count (state c')
           = get_iteration_count (state c) + (if cur c = ''web_research'' then 1 else 0)
    \<and> executed c' = executed c @ (if cur c = START then [] else [cur c])
    \<and> query (state c') = query (state c)
    \<and> length (get_reflections (state c'))
           = length (get_reflections (state c)) + (if cur c = ''reflection'' then 1 else 0)
    \<and> (cur c \<noteq> ''web_research'' \<longrightarrow>
           get_search_results (state c') = get_search_results (state c))
    \<and> (cur c = ''web_research'' \<longrightarrow>
           (\<exists>q. query (state c) = Some q \<and>
               get_search_results (state c')
                 = get_search_results (state c)
                   @ search q (get_iteration_count (state c) + 1)))"
  proof cases
    case start
    with assms have "c' = c\<lparr>cur := ''generate_query''\<rparr>"
      by (simp add: step_START)
    with start show ?thesis by (simp add: START_def)
  next
    case gq
    from generate_query_effect [of "state c"] obtain s where
      s: "generate_query (state c) = Inr s" "get_iteration_count s = get_iteration_count (state c)"
        "query s = query (state c)" "get_search_results s = get_search_results (state c)"
        "get_reflections s = get_reflections (state c)"
      by blast
    with gq assms have "c' = \<lparr>cur = ''web_research'', state = s,
                       executed = executed c @ [''generate_query'']\<rparr>"
      by (simp add: step_generate_query)
    with gq s show ?thesis by (simp add: START_def)
  next
    case wr
    with assms obtain s where s: "web_research_with search (state c) = Inr s"
      and c': "c' = \<lparr>cur = ''reflection'', state = s,
                       executed = executed c @ [''web_research'']\<rparr>"
      by (auto simp add: step_web_research split: sum.splits)
    from web_research_with_effect [OF s] wr c' show ?thesis
      by (auto simp add: START_def get_iteration_count_def)
  next
    case rf
    with assms obtain s where s: "reflection_with score (state c) = Inr s"
      and c': "c' = \<lparr>cur = evaluate_research s, state = s,
                       executed = executed c @ [''reflection'']\<rparr>"
      by (auto simp add: step_reflection split: sum.splits)
    from reflection_with_effect [OF s] rf c' show ?thesis
      by (auto simp add: START_def get_iteration_count_def)
  next
    case fa
    from finalize_answer_effect [of "state c"] obtain s where
      s: "finalize_answer (state c) = Inr s" "iteration_count s = iteration_count (state c)"
        "query s = query (state c)" "get_search_results s = get_search_results (state c)"
        "get_reflections s = get_reflections (state c)"
      by blast
    with fa assms have "c' = \<lparr>cur = END, state = s,
                       executed = executed c @ [''finalize_answer'']\<rparr>"
      by (simp add: step_finalize_answer)
    with fa s show ?thesis by (simp add: START_def get_iteration_count_def)
  qed
  then show "get_iteration_count (state c')
           = get_iteration_count (state c) + (if cur c = ''web_research'' then 1 else 0)"
    and "executed c' = executed c @ (if cur c = START then [] else [cur c])"
    and "query (state c') = query (state c)"
    and "length (get_reflections (state c'))
           = length (get_reflections (state c)) + (if cur c = ''reflection'' then 1 else 0)"
    and "cur c \<noteq> ''web_research'' \<Longrightarrow>
           get_search_results (state c') = get_search_results (state c)"
    and "cur c = ''web_research'' \<Longrightarrow>
           \<exists>q. query (state c) = Some q \<and>
               get_search_results (state c')
                 = get_search_results (state c)
                   @ search q (get_iteration_count (state c) + 1)"
    by blast+
qed

subsection \<open>Invariants of a run\<close>

lemma run_at_wired:
  "run_at (build_graph_with research reflect) k s
     = steps (wired research reflect) k (initial s)"
  by (simp add: run_at_def build_graph_with_wired)

lemma build_graph_reference:
  "build_graph
     = build_graph_with (web_research_with reference_search) (reflection_with reference_score)"
  by (simp add: build_graph_def web_research_reference reflection_reference)

lemma steps_monotone:
  assumes "steps (wired (web_research_with search) (reflection_with score)) k c = Inr c'"
  shows "get_iteration_count (state c) \<le> get_iteration_count (state c')
         \<and> length (get_search_results (state c)) \<le> length (get_search_results (state c'))
         \<and> length (get_reflections (state c)) \<le> length (get_reflections (state c'))"
proof (rule steps_invariant [OF _ _ assms])
  fix a b
  assume a: "get_iteration_count (state c) \<le> get_iteration_count (state a)
         \<and> length (get_search_results (state c)) \<le> length (get_search_results (state a))
         \<and> length (get_reflections (state c)) \<le> length (get_reflections (state a))"
    and ab: "step (wired (web_research_with search) (reflection_with score)) a = Inr b"
  have "length (get_search_results (state a)) \<le> length (get_search_results (state b))"
  proof (cases "cur a = ''web_research''")
    case True
    from step_effect(6) [OF ab True] show ?thesis by auto
  next
    case False
    from step_effect(5) [OF ab False] show ?thesis by simp
  qed
  with a step_effect(1) [OF ab] step_effect(4) [OF ab]
  show "get_iteration_count (state c) \<le> get_iteration_count (state b)
         \<and> length (get_search_results (state c)) \<le> length (get_search_results (state b))
         \<and> length (get_reflections (state c)) \<le> length (get_reflections (state b))"
    by (simp split: if_splits)
qed simp

lemma run_counts:
  assumes "run_at (build_graph_with (web_research_with search) (reflection_with score)) k s0
             = Inr c"
  shows "get_iteration_count (state c)
           = get_iteration_count s0 + int (count_list (executed c) ''web_research'')
         \<and> length (get_reflections (state c))
           = length (get_reflections s0) + count_list (executed c) ''reflection''
         \<and> query (state c) = query s0"
proof -
  let ?g = "wired (web_research_with search) (reflection_with score)"
  let ?P = "\<lambda>a. get_iteration_count (state a)
           = get_iteration_count s0 + int (count_list (executed a) ''web_research'')
         \<and> length (get_reflections (state a))
           = length (get_reflections s0) + count_list (executed a) ''reflection''
         \<and> query (state a) = query s0"
  from assms have st: "steps ?g k (initial s0) = Inr c"
    by (simp add: run_at_wired)
  show ?thesis
  proof (rule steps_invariant [where P = ?P, OF _ _ st])
    show "?P (initial s0)" by (simp add: initial_def)
  next
    fix a b
    assume a: "?P a" and ab: "step ?g a = Inr b"
    from a step_effect(1-4) [OF ab] show "?P b"
      by (simp add: START_def split: if_splits)
  qed
qed

lemma run_search_results:
  assumes "run_at build_graph k s0 = Inr c"
  shows "length (get_search_results (state c))
           = length (get_search_results s0) + 2 * count_list (executed c) ''web_research''"
proof -
  let ?g = "wired (web_research_with reference_search) (reflection_with reference_score)"
  let ?P = "\<lambda>a. length (get_search_results (state a))
           = length (get_search_results s0) + 2 * count_list (executed a) ''web_research''"
  from assms have st: "steps ?g k (initial s0) = Inr c"
    by (simp add: build_graph_reference run_at_wired)
  show ?thesis
  proof (rule steps_invariant [where P = ?P, OF _ _ st])
    show "?P (initial s0)" by (simp add: initial_def)
  next
    fix a b
    assume a: "?P a" and ab: "step ?g a = Inr b"
    show "?P b"
    proof (cases "cur a = ''web_research''")
      case True
      from step_effect(6) [OF ab True] a step_effect(2) [OF ab] True show ?thesis
        by (auto simp add: reference_search_def START_def)
    next
      case False
      from step_effect(5) [OF ab False] a step_effect(2) [OF ab] False show ?thesis
        by (auto simp add: START_def)
    qed
  qed
qed

lemma run_at_later:
  assumes "j \<le> k" and "run_at built j s0 = Inr b" and "run_at built k s0 = Inr c"
  shows "\<exists>g. built = Inr g \<and> steps g (k - j) b = Inr c"
proof (cases built)
  case (Inl e)
  with assms(2) show ?thesis by (simp add: run_at_def)
next
  case (Inr g)
  from assms(1) have "k = j + (k - j)" by simp
  then have "steps g k (initial s0)
      = (case steps g j (initial s0) of Inl e \<Rightarrow> Inl e | Inr c1 \<Rightarrow> steps g (k - j) c1)"
    using steps_add [of g j "k - j" "initial s0"] by simp
  with Inr assms(2,3) show ?thesis by (simp add: run_at_def)
qed

lemma reflection_has_count:
  assumes "run_at (build_graph_with (web_research_with search) (reflection_with score)) k s0
             = Inr c"
    and "cur c = ''reflection''"
  shows "\<exists>n s. iteration_count (state c) = Some n \<and> reflection_with score (state c) = Inr s"
proof -
  let ?g = "wired (web_research_with search) (reflection_with score)"
  let ?P = "\<lambda>a. cur a = START \<or> cur a = ''generate_query''
                 \<or> iteration_count (state a) \<noteq> None"
  from assms(1) have st: "steps ?g k (initial s0) = Inr c"
    by (simp add: run_at_wired)
  have "?P c"
  proof (rule steps_invariant [where P = ?P, OF _ _ st])
    show "?P (initial s0)" by (simp add: initial_def)
  next
    fix a b
    assume a: "?P a" and ab: "step ?g a = Inr b"
    from step_node [OF ab]
    consider (start) "cur a = START" | (gq) "cur a = ''generate_query''"
      | (wr) "cur a = ''web_research''" | (rf) "cur a = ''reflection''"
      | (fa) "cur a = ''finalize_answer''"
      by blast
    then show "?P b"
    proof cases
      case start
      with ab show ?thesis by (auto simp add: step_START)
    next
      case gq
      from generate_query_effect [of "state a"] obtain s where
        "generate_query (state a) = Inr s" "iteration_count s \<noteq> None"
        by blast
      with gq ab show ?thesis by (auto simp add: step_generate_query)
    next
      case wr
      with ab obtain s where s: "web_research_with search (state a) = Inr s" "state b = s"
        by (auto simp add: step_web_research split: sum.splits)
      from web_research_with_effect [OF s(1)] s(2) show ?thesis by auto
    next
      case rf
      with ab obtain s where s: "reflection_with score (state a) = Inr s" "state b = s"
        by (auto simp add: step_reflection split: sum.splits)
      from reflection_with_effect [OF s(1)] s(2) show ?thesis by auto
    next
      case fa
      from finalize_answer_effect [of "state a"] obtain s where
        s: "finalize_answer (state a) = Inr s" "iteration_count s = iteration_count (state a)"
        by blast
      with fa ab have "state b = s"
        by (auto simp add: step_finalize_answer)
      with s(2) a fa show ?thesis by (auto simp add: START_def)
    qed
  qed
  with assms(2) obtain n where n: "iteration_count (state c) = Some n"
    by (auto simp add: START_def)
  from reflection_with_total [OF n, of score] n show ?thesis by blast
qed

subsection \<open>The research loop ends\<close>

lemma END_neq [simp]:
  "''web_research'' \<noteq> END" "''reflection'' \<noteq> END" "''finalize_answer'' \<noteq> END"
  "''generate_query'' \<noteq> END" "START \<noteq> END"
  by (simp_all add: START_def END_def)

lemma finish:
  assumes "cur c = ''finalize_answer''"
  shows "\<exists>s. steps (wired research reflect) (Suc k) c
               = Inr \<lparr>cur = END, state = s, executed = executed c @ [''finalize_answer'']\<rparr>
           \<and> iteration_count s = iteration_count (state c)
           \<and> quality_score s = quality_score (state c)"
proof -
  from finalize_answer_effect [of "state c"] obtain s where
    s: "finalize_answer (state c) = Inr s" "iteration_count s = iteration_count (state c)"
       "quality_score s = quality_score (state c)"
    by blast
  with assms have "step (wired research reflect) c
      = Inr \<lparr>cur = END, state = s, executed = executed c @ [''finalize_answer'']\<rparr>"
    by (simp add: step_finalize_answer)
  with assms have "steps (wired research reflect) (Suc k) c
      = Inr \<lparr>cur = END, state = s, executed = executed c @ [''finalize_answer'']\<rparr>"
    by (simp add: steps_END)
  with s show ?thesis by blast
qed

lemma research_loop:
  assumes "cur c = ''web_research''" and "query (state c) = Some q"
    and "m = nat (2 - get_iteration_count (state c))"
  shows "\<exists>k c'. steps (wired (web_research_with search) (reflection_with score)) k c = Inr c'
           \<and> k \<le> 2 * m + 3
           \<and> cur c' = END
           \<and> get_iteration_count (state c') \<le> max 3 (get_iteration_count (state c) + 1)
           \<and> ((\<forall>st. float_lt (score st) (Finite 0.75)) \<longrightarrow>
                get_iteration_count (state c') = max 3 (get_iteration_count (state c) + 1)
                \<and> float_lt (get_quality_score (state c')) (Finite 0.75))"
  using assms
proof (induction m arbitrary: c rule: less_induct)
  case (less m)
  let ?g = "wired (web_research_with search) (reflection_with score)"
  let ?n = "get_iteration_count (state c)"
  from web_research_with_query [OF less.prems(2)] obtain s1 where
    s1: "web_research_with search (state c) = Inr s1"
    by blast
  from web_research_with_effect [OF s1] less.prems(2) have
    s1_count: "iteration_count s1 = Some (?n + 1)" and s1_query: "query s1 = Some q"
    by auto
  from reflection_with_total [OF s1_count, of score] obtain s2 t where
    s2: "reflection_with score s1 = Inr s2" and s2_score: "quality_score s2 = Some (score t)"
    and s2_count: "iteration_count s2 = Some (?n + 1)" and s2_query: "query s2 = Some q"
    using s1_query by auto
  define c2 where "c2 = \<lparr>cur = evaluate_research s2, state = s2,
                         executed = (executed c @ [''web_research'']) @ [''reflection'']\<rparr>"
  have two: "steps ?g (Suc (Suc k)) c = steps ?g k c2" for k
    using less.prems(1) s1 s2 by (simp add: step_web_research step_reflection c2_def)
  have n2: "get_iteration_count s2 = ?n + 1"
    using s2_count by (simp add: get_iteration_count_def)
  have q2: "get_quality_score s2 = score t"
    using s2_score by (simp add: get_quality_score_def)
  show ?case
  proof (cases "evaluate_research s2 = ''web_research''")
    case True
    then have small: "?n + 1 < 3" and low: "float_lt (score t) (Finite 0.75)"
      using n2 q2 by (simp_all add: evaluate_research_web_research)
    have smaller: "nat (2 - get_iteration_count (state c2)) < m"
      using small less.prems(3) n2 by (simp add: c2_def)
    moreover have "cur c2 = ''web_research''" "query (state c2) = Some q"
      using True s2_query by (simp_all add: c2_def)
    ultimately obtain k c' where
      k: "steps ?g k c2 = Inr c'" "cur c' = END"
        "get_iteration_count (state c') \<le> max 3 (get_iteration_count (state c2) + 1)"
        "(\<forall>st. float_lt (score st) (Finite 0.75)) \<longrightarrow>
           get_iteration_count (state c') = max 3 (get_iteration_count (state c2) + 1)
           \<and> float_lt (get_quality_score (state c')) (Finite 0.75)"
      and bound: "k \<le> 2 * nat (2 - get_iteration_count (state c2)) + 3"
      using less.IH [of "nat (2 - get_iteration_count (state c2))" c2] by blast
    have "get_iteration_count (state c2) = ?n + 1"
      using n2 by (simp add: c2_def)
    with small have same: "max 3 (get_iteration_count (state c2) + 1) = max 3 (?n + 1)"
      by simp
    have "steps ?g (Suc (Suc k)) c = Inr c'"
      using two [of k] k(1) by simp
    moreover have "Suc (Suc k) \<le> 2 * m + 3"
      using bound smaller by simp
    moreover have "get_iteration_count (state c') \<le> max 3 (?n + 1)"
      using k(3) same by simp
    moreover have "(\<forall>st. float_lt (score st) (Finite 0.75)) \<longrightarrow>
           get_iteration_count (state c') = max 3 (?n + 1)
           \<and> float_lt (get_quality_score (state c')) (Finite 0.75)"
      using k(4) same by simp
    ultimately show ?thesis using k(2) by blast
  next
    case False
    with evaluate_research_cases [of s2] have fa: "cur c2 = ''finalize_answer''"
      by (simp add: c2_def)
    from finish [OF fa, of "web_research_with search" "reflection_with score" 0]
    obtain s3 where
      s3: "steps ?g (Suc 0) c2
             = Inr \<lparr>cur = END, state = s3, executed = executed c2 @ [''finalize_answer'']\<rparr>"
        "iteration_count s3 = iteration_count s2" "quality_score s3 = quality_score s2"
      by (auto simp add: c2_def)
    have n3: "get_iteration_count s3 = ?n + 1"
      using s3(2) s2_count by (simp add: get_iteration_count_def)
    have q3: "get_quality_score s3 = score t"
      using s3(3) s2_score by (simp add: get_quality_score_def)
    have capped: "float_lt (score t) (Finite 0.75) \<Longrightarrow> 3 \<le> ?n + 1"
      using False n2 q2 by (simp add: evaluate_research_web_research)
    let ?c' = "\<lparr>cur = END, state = s3, executed = executed c2 @ [''finalize_answer'']\<rparr>"
    have "steps ?g (Suc (Suc (Suc 0))) c = Inr ?c'"
      using two [of "Suc 0"] s3(1) by simp
    moreover have "Suc (Suc (Suc 0)) \<le> 2 * m + 3" by simp
    moreover have "cur ?c' = END" by simp
    moreover have "get_iteration_count (state ?c') \<le> max 3 (?n + 1)"
      using n3 by simp
    moreover have "(\<forall>st. float_lt (score st) (Finite 0.75)) \<longrightarrow>
           get_iteration_count (state ?c') = max 3 (?n + 1)
           \<and> float_lt (get_quality_score (state ?c')) (Finite 0.75)"
      using n3 q3 capped by auto
    ultimately show ?thesis by blast
  qed
qed

lemma run_reaches_END:
  assumes "query s0 = Some q"
  shows "\<exists>k c. run (build_graph_with (web_research_with search) (reflection_with score)) k s0
                 = Some (Inr c)
           \<and> k \<le> 2 * nat (2 - get_iteration_count s0) + 5
           \<and> cur c = END
           \<and> get_iteration_count (state c) \<le> max 3 (get_iteration_count s0 + 1)
           \<and> ((\<forall>st. float_lt (score st) (Finite 0.75)) \<longrightarrow>
                get_iteration_count (state c) = max 3 (get_iteration_count s0 + 1)
                \<and> float_lt (get_quality_score (state c)) (Finite 0.75))"
proof -
  let ?g = "wired (web_research_with search) (reflection_with score)"
  from generate_query_effect [of s0] obtain s1 where
    s1: "generate_query s0 = Inr s1" "get_iteration_count s1 = get_iteration_count s0"
      "query s1 = query s0"
    by blast
  define c1 where "c1 = \<lparr>cur = ''web_research'', state = s1, executed = [''generate_query'']\<rparr>"
  have two: "steps ?g (Suc (Suc k)) (initial s0) = steps ?g k c1" for k
    using s1(1) by (simp add: initial_def step_START step_generate_query c1_def)
  have "cur c1 = ''web_research''" "query (state c1) = Some q"
    using s1(3) assms by (simp_all add: c1_def)
  from research_loop [OF this refl, of search score] obtain k c where
    k: "steps ?g k c1 = Inr c" "cur c = END"
      "get_iteration_count (state c) \<le> max 3 (get_iteration_count (state c1) + 1)"
      "(\<forall>st. float_lt (score st) (Finite 0.75)) \<longrightarrow>
           get_iteration_count (state c) = max 3 (get_iteration_count (state c1) + 1)
           \<and> float_lt (get_quality_score (state c)) (Finite 0.75)"
      "k \<le> 2 * nat (2 - get_iteration_count (state c1)) + 3"
    by blast
  have "get_iteration_count (state c1) = get_iteration_count s0"
    using s1(2) by (simp add: c1_def)
  with k have "run (build_graph_with (web_research_with search) (reflection_with score))
                 (Suc (Suc k)) s0 = Some (Inr c)
           \<and> Suc (Suc k) \<le> 2 * nat (2 - get_iteration_count s0) + 5
           \<and> cur c = END
           \<and> get_iteration_count (state c) \<le> max 3 (get_iteration_count s0 + 1)
           \<and> ((\<forall>st. float_lt (score st) (Finite 0.75)) \<longrightarrow>
                get_iteration_count (state c) = max 3 (get_iteration_count s0 + 1)
                \<and> float_lt (get_quality_score (state c)) (Finite 0.75))"
    using two [of k] by (simp add: run_def run_at_wired)
  then show ?thesis by blast
qed

lemma run_fuel_mono:
  assumes "run built k s = Some r" and "k \<le> k'"
  shows "run built k' s = Some r"
proof (cases built)
  case (Inl e)
  with assms show ?thesis by (auto simp add: run_def run_at_def)
next
  case (Inr g)
  from assms(2) have k': "k' = k + (k' - k)" by simp
  have split: "steps g k' (initial s)
      = (case steps g k (initial s) of Inl e \<Rightarrow> Inl e | Inr c1 \<Rightarrow> steps g (k' - k) c1)"
    using steps_add [of g k "k' - k" "initial s"] k' by simp
  show ?thesis
  proof (cases "steps g k (initial s)")
    case (Inl e)
    with Inr assms(1) split show ?thesis by (auto simp add: run_def run_at_def)
  next
    case inr: (Inr c)
    with Inr assms(1) have "cur c = END" "r = Inr c"
      by (auto simp add: run_def run_at_def split: if_splits)
    with Inr inr split show ?thesis by (simp add: run_def run_at_def steps_END)
  qed
qed

subsection \<open>Concrete runs\<close>

lemmas graph_eval =
  run_def run_at_def build_graph_def build_graph_with_def compile_def add_node_def add_edge_def
  add_conditional_edges_def StateGraph_def edge_ok_def branch_ok_def declared_def
  START_def END_def initial_def step_def invoke_node_def next_node_def
  generate_query_def web_research_def reflection_def finalize_answer_def
  continue_to_web_research_def evaluate_research_def
  get_iteration_count_def get_quality_score_def get_search_results_def get_reflections_def
  Let_def str_int_def str_nat.simps eval_nat_numeral

lemma scenario_run: "run build_graph 7 scenario_input = Some (Inr scenario_final)"
  by (simp add: graph_eval scenario_input_def scenario_final_def)

lemma scenario_run_short: "run build_graph 6 scenario_input = None"
  by (simp add: graph_eval scenario_input_def)

lemma preset_run: "run build_graph 5 preset_input = Some (Inr preset_final)"
  by (simp add: graph_eval scenario_input_def preset_input_def preset_final_def)

lemma negative_run: "run build_graph 11 negative_input = Some (Inr negative_final)"
  by (simp add: graph_eval scenario_input_def negative_input_def negative_final_def)

lemma scenario_point: "run_at build_graph 5 scenario_input = Inr scenario_second_reflection"
  by (simp add: graph_eval scenario_input_def scenario_second_reflection_def)

subsection \<open>The router\<close>

text \<open>
  \<^bold>\<open>C2.\<close> The router \<open>evaluate_research\<close> is a function of the pair
  (\<^verbatim>\<open>iteration_count\<close>, \<^verbatim>\<open>quality_score\<close>): two states that agree on the two fields get
  the same target. It decides in the order of the specification: at a count of 3 or more
  the target is \<^verbatim>\<open>finalize_answer\<close> whatever the score is; below 3 a score under 0.75 gives
  \<^verbatim>\<open>web_research\<close>, and anything else gives \<^verbatim>\<open>finalize_answer\<close>. An absent field is read
  with the default 0, as \<^verbatim>\<open>state.get\<close> does.
\<close>

theorem evaluate_research_decision:
  assumes "iteration_count a = iteration_count b" and "quality_score a = quality_score b"
  shows "evaluate_research a = evaluate_research b
         \<and> evaluate_research a
             = evaluate_research_spec (get_iteration_count a) (get_quality_score a)
         \<and> (3 \<le> get_iteration_count a \<longrightarrow> evaluate_research a = ''finalize_answer'')
         \<and> (get_iteration_count a < 3 \<and> float_lt (get_quality_score a) (Finite 0.75)
              \<longrightarrow> evaluate_research a = ''web_research'')
         \<and> (get_iteration_count a < 3 \<and> \<not> float_lt (get_quality_score a) (Finite 0.75)
              \<longrightarrow> evaluate_research a = ''finalize_answer'')"
  using assms
  by (simp add: evaluate_research_def evaluate_research_spec_def get_iteration_count_def
      get_quality_score_def Let_def)

theorem evaluate_research_decision_witness:
  "iteration_count (state scenario_second_reflection)
     = iteration_count (state scenario_second_reflection\<lparr>query := Some ''other''\<rparr>)
   \<and> quality_score (state scenario_second_reflection)
     = quality_score (state scenario_second_reflection\<lparr>query := Some ''other''\<rparr>)
   \<and> get_iteration_count (state scenario_second_reflection) < 3
   \<and> float_lt (get_quality_score (state scenario_second_reflection)) (Finite 0.75)
   \<and> evaluate_research (state scenario_second_reflection)
     = evaluate_research (state scenario_second_reflection\<lparr>query := Some ''other''\<rparr>)
   \<and> evaluate_research (state scenario_second_reflection) = ''web_research''"
proof -
  let ?a = "state scenario_second_reflection"
  let ?b = "state scenario_second_reflection\<lparr>query := Some ''other''\<rparr>"
  have 1: "iteration_count ?a = iteration_count ?b" by simp
  have 2: "quality_score ?a = quality_score ?b" by simp
  have 3: "get_iteration_count ?a < 3"
    by (simp add: scenario_second_reflection_def get_iteration_count_def)
  have 4: "float_lt (get_quality_score ?a) (Finite 0.75)"
    by (simp add: scenario_second_reflection_def get_quality_score_def)
  from evaluate_research_decision [OF 1 2] 1 2 3 4 show ?thesis by blast
qed

text \<open>
  \<^bold>\<open>C10.\<close> For every state, also one without \<^verbatim>\<open>quality_score\<close> or
  \<^verbatim>\<open>iteration_count\<close>, \<open>evaluate_research\<close> returns a name of its declared candidate list
  \<^verbatim>\<open>["web_research", "finalize_answer"]\<close>: the routing step after \<^verbatim>\<open>reflection\<close> is
  never an error. With both fields absent the target is \<^verbatim>\<open>web_research\<close>. The router
  reads both fields with \<^verbatim>\<open>get\<close> and the default 0, so it has no failing branch, and
  its model is a total function into the node names.
\<close>

theorem evaluate_research_total:
  "evaluate_research st \<in> set [''web_research'', ''finalize_answer'']
   \<and> next_node (wired research reflect) ''reflection'' st = Inr (evaluate_research st)
   \<and> evaluate_research (st\<lparr>iteration_count := None, quality_score := None\<rparr>)
       = ''web_research''"
proof -
  have "evaluate_research st = ''web_research'' \<or> evaluate_research st = ''finalize_answer''"
    by (rule evaluate_research_cases)
  moreover have "evaluate_research (st\<lparr>iteration_count := None, quality_score := None\<rparr>)
       = ''web_research''"
    by (simp add: evaluate_research_def get_iteration_count_def get_quality_score_def Let_def)
  ultimately show ?thesis
    by (auto simp add: next_node_def wired_def START_def END_def)
qed

subsection \<open>The score of a reflection\<close>

text \<open>
  \<^bold>\<open>C8.\<close> An execution of \<^verbatim>\<open>reflection\<close> on a state whose counter is \<open>n\<close>
  overwrites \<^verbatim>\<open>quality_score\<close>, whatever it was, with 0.8 if \<open>n \<ge> 2\<close> and with 0.5
  otherwise. The score written lies in [0, 1], and it is monotone in the counter: a
  larger counter never gets a smaller score. (The node subscripts
  \<^verbatim>\<open>state['iteration_count']\<close>, so the counter has to be present; in a run it is, see
  \<open>reflection_has_count\<close>.)
\<close>

theorem reflection_quality_score:
  assumes "iteration_count a = Some n" and "iteration_count b = Some m" and "n \<le> m"
  shows "\<exists>a' b' qa qb.
           reflection a = Inr a' \<and> reflection b = Inr b'
           \<and> quality_score a' = Some qa \<and> quality_score b' = Some qb
           \<and> qa = (if 2 \<le> n then Finite 0.8 else Finite 0.5)
           \<and> float_le (Finite 0) qa \<and> float_le qa (Finite 1)
           \<and> float_le qa qb"
  using assms by (simp add: reflection_def Let_def)

theorem reflection_quality_score_witness:
  "iteration_count (state scenario_second_reflection) = Some 2
   \<and> iteration_count preset_input = Some 5
   \<and> (2::int) \<le> 5
   \<and> (\<exists>a' b' qa qb.
           reflection (state scenario_second_reflection) = Inr a'
           \<and> reflection preset_input = Inr b'
           \<and> quality_score a' = Some qa \<and> quality_score b' = Some qb
           \<and> qa = Finite 0.8
           \<and> float_le (Finite 0) qa \<and> float_le qa (Finite 1)
           \<and> float_le qa qb)"
  using reflection_quality_score [of "state scenario_second_reflection" 2 preset_input 5]
  by (simp add: scenario_second_reflection_def preset_input_def scenario_input_def)

subsection \<open>Construction errors\<close>

text \<open>
  \<^bold>\<open>C9.\<close> A construction with a conditional edge that declares a candidate target
  which is no registered node fails with \<open>BuildError\<close>; every run on its result is that
  error, at every point and for every fuel, so no node is ever executed.
\<close>

theorem undeclared_candidate_BuildError:
  assumes "(src, router, candidates) \<in> set (branches b)"
    and "tgt \<in> set candidates" and "\<not> declared b tgt"
  shows "compile b = Inl BuildError
         \<and> run_at (compile b) k s = Inl BuildError
         \<and> run (compile b) fuel s = Some (Inl BuildError)"
proof -
  from assms(2,3) have "\<not> list_all (declared b) candidates"
    by (auto simp add: list_all_iff)
  then have "\<not> branch_ok b (src, router, candidates)"
    by (simp add: branch_ok_def)
  with assms(1) have "\<not> list_all (branch_ok b) (branches b)"
    by (auto simp add: list_all_iff)
  then have "compile b = Inl BuildError"
    by (simp add: compile_def)
  then show ?thesis by (simp add: run_def run_at_def)
qed

theorem undeclared_candidate_BuildError_witness:
  "(''reflection'', evaluate_research, [''web_research'', ''summarize''])
      \<in> set (branches misdeclared_builder)
   \<and> ''summarize'' \<in> set [''web_research'', ''summarize'']
   \<and> \<not> declared misdeclared_builder ''summarize''
   \<and> compile misdeclared_builder = Inl BuildError
   \<and> run_at (compile misdeclared_builder) 7 scenario_input = Inl BuildError
   \<and> run (compile misdeclared_builder) 7 scenario_input = Some (Inl BuildError)"
proof -
  have 1: "(''reflection'', evaluate_research, [''web_research'', ''summarize''])
      \<in> set (branches misdeclared_builder)"
    by (simp add: misdeclared_builder_def Let_def add_node_def add_edge_def
        add_conditional_edges_def StateGraph_def)
  have 2: "''summarize'' \<in> set [''web_research'', ''summarize'']" by simp
  have 3: "\<not> declared misdeclared_builder ''summarize''"
    by (simp add: misdeclared_builder_def Let_def add_node_def add_edge_def
        add_conditional_edges_def StateGraph_def declared_def)
  from 1 2 3 undeclared_candidate_BuildError [OF 1 2 3, of 7 scenario_input 7]
  show ?thesis by blast
qed

subsection \<open>Termination and the iteration cap\<close>

text \<open>
  The bound on the counter does not hold for every initial mapping: \<^verbatim>\<open>generate_query\<close>
  initialises the counter only when the key is absent, so a mapping that carries
  \<^verbatim>\<open>iteration_count = 5\<close> ends with the counter at 6. Nor does the bound on the
  traversals: from \<^verbatim>\<open>iteration_count = -2\<close> the run executes \<^verbatim>\<open>web_research\<close> four
  times.
\<close>

theorem cap_counterexample:
  "run build_graph 5 preset_input = Some (Inr preset_final)
   \<and> \<not> get_iteration_count (state preset_final) \<le> 3
   \<and> run build_graph 11 negative_input = Some (Inr negative_final)
   \<and> \<not> count_list (executed negative_final) ''web_research'' \<le> 3"
  by (simp add: preset_run negative_run preset_final_def negative_final_def
      get_iteration_count_def)

text \<open>
  \<^bold>\<open>C1\<close> (amended). For every initial mapping that supplies \<^verbatim>\<open>query\<close> and in which
  \<^verbatim>\<open>iteration_count\<close> is absent or is 0, 1 or 2, whatever the retrieval returns and
  whatever the scoring policy reports, the run terminates by reaching END (nine
  iterations of the engine loop suffice); the counter of the final state is at most 3
  and \<^verbatim>\<open>web_research\<close> has been executed at most 3 times.
\<close>

theorem run_reaches_END_within_cap:
  assumes "query s0 = Some q"
    and "0 \<le> get_iteration_count s0" and "get_iteration_count s0 \<le> 2"
  shows "\<exists>c. run (build_graph_with (web_research_with search) (reflection_with score)) 9 s0
               = Some (Inr c)
           \<and> cur c = END
           \<and> get_iteration_count (state c) \<le> 3
           \<and> count_list (executed c) ''web_research'' \<le> 3"
proof -
  let ?built = "build_graph_with (web_research_with search) (reflection_with score)"
  from run_reaches_END [OF assms(1), of search score] obtain fuel c where
    c: "run ?built fuel s0 = Some (Inr c)" "cur c = END"
       "get_iteration_count (state c) \<le> max 3 (get_iteration_count s0 + 1)"
    and fuel: "fuel \<le> 2 * nat (2 - get_iteration_count s0) + 5"
    by blast
  from fuel assms(2) have "fuel \<le> 9" by simp
  with c(1) have nine: "run ?built 9 s0 = Some (Inr c)"
    by (rule run_fuel_mono)
  from c(1) have "run_at ?built fuel s0 = Inr c"
    by (auto simp add: run_def split: sum.splits if_splits)
  from run_counts [OF this] have
    "get_iteration_count (state c)
       = get_iteration_count s0 + int (count_list (executed c) ''web_research'')"
    by simp
  with c(3) assms(2,3) have "get_iteration_count (state c) \<le> 3
                \<and> count_list (executed c) ''web_research'' \<le> 3"
    by auto
  with nine c(2) show ?thesis by blast
qed

theorem run_reaches_END_within_cap_witness:
  "query scenario_input = Some ''test''
   \<and> 0 \<le> get_iteration_count scenario_input \<and> get_iteration_count scenario_input \<le> 2
   \<and> (\<exists>c. run build_graph 9 scenario_input = Some (Inr c)
          \<and> cur c = END
          \<and> get_iteration_count (state c) \<le> 3
          \<and> count_list (executed c) ''web_research'' \<le> 3)"
proof -
  have q: "query scenario_input = Some ''test''"
    by (simp add: scenario_input_def)
  have n: "0 \<le> get_iteration_count scenario_input" "get_iteration_count scenario_input \<le> 2"
    by (simp_all add: scenario_input_def get_iteration_count_def)
  from run_reaches_END_within_cap [OF q n, of reference_search reference_score] q n
  show ?thesis by (simp add: build_graph_reference)
qed

text \<open>
  \<^bold>\<open>C6.\<close> Scenario B: with a scoring policy that always reports a quality below
  0.75, a run that starts below the cap (counter absent, or 0, 1 or 2) still reaches
  END, within nine iterations of the engine loop, and it does so with the counter at
  exactly 3: the quality of the final state is still under the threshold, so the last
  routing decision was the hard cap, and \<^verbatim>\<open>web_research\<close> has executed once for every
  value of the counter up to 3, not fewer times.
\<close>

theorem low_quality_stops_at_cap:
  assumes "\<forall>st. float_lt (score st) (Finite 0.75)" and "query s0 = Some q"
    and "0 \<le> get_iteration_count s0" and "get_iteration_count s0 \<le> 2"
  shows "\<exists>c. run (build_graph_with (web_research_with search) (reflection_with score)) 9 s0
               = Some (Inr c)
           \<and> cur c = END
           \<and> iteration_count (state c) = Some 3
           \<and> float_lt (get_quality_score (state c)) (Finite 0.75)
           \<and> int (count_list (executed c) ''web_research'') = 3 - get_iteration_count s0"
proof -
  let ?built = "build_graph_with (web_research_with search) (reflection_with score)"
  from run_reaches_END [OF assms(2), of search score] assms(1) obtain fuel c where
    c: "run ?built fuel s0 = Some (Inr c)" "cur c = END"
       "get_iteration_count (state c) = max 3 (get_iteration_count s0 + 1)"
       "float_lt (get_quality_score (state c)) (Finite 0.75)"
    and fuel: "fuel \<le> 2 * nat (2 - get_iteration_count s0) + 5"
    by blast
  from fuel assms(3) have "fuel \<le> 9" by simp
  with c(1) have nine: "run ?built 9 s0 = Some (Inr c)"
    by (rule run_fuel_mono)
  from c(3) assms(4) have three: "get_iteration_count (state c) = 3"
    by simp
  then have "iteration_count (state c) = Some 3"
    by (simp add: get_iteration_count_def split: option.splits)
  moreover from c(1) have "run_at ?built fuel s0 = Inr c"
    by (auto simp add: run_def split: sum.splits if_splits)
  from run_counts [OF this] three
  have "int (count_list (executed c) ''web_research'') = 3 - get_iteration_count s0"
    by simp
  ultimately show ?thesis using nine c(2,4) by blast
qed

theorem low_quality_stops_at_cap_witness:
  "(\<forall>st. float_lt (always_low st) (Finite 0.75))
   \<and> query scenario_input = Some ''test''
   \<and> 0 \<le> get_iteration_count scenario_input
   \<and> get_iteration_count scenario_input \<le> 2
   \<and> (\<exists>c. run (build_graph_with (web_research_with reference_search)
                (reflection_with always_low)) 9 scenario_input
           = Some (Inr c)
         \<and> cur c = END
         \<and> iteration_count (state c) = Some 3
         \<and> float_lt (get_quality_score (state c)) (Finite 0.75)
         \<and> count_list (executed c) ''web_research'' = 3)"
proof -
  have 1: "\<forall>st. float_lt (always_low st) (Finite 0.75)"
    by (simp add: always_low_def)
  have 2: "query scenario_input = Some ''test''"
    by (simp add: scenario_input_def)
  have 3: "0 \<le> get_iteration_count scenario_input" "get_iteration_count scenario_input \<le> 2"
    by (simp_all add: scenario_input_def get_iteration_count_def)
  have 4: "get_iteration_count scenario_input = 0"
    by (simp add: scenario_input_def get_iteration_count_def)
  from low_quality_stops_at_cap [OF 1 2 3, of reference_search] 1 2 3 4
  show ?thesis by simp
qed

text \<open>
  \<^bold>\<open>C7.\<close> If at some point of a run \<^verbatim>\<open>reflection\<close> produces a state with
  \<^verbatim>\<open>quality_score\<close> \<open>\<ge>\<close> 0.75 while the counter is below 3, then
  \<open>evaluate_research\<close> routes to \<^verbatim>\<open>finalize_answer\<close> and the run is over two iterations
  later: only \<^verbatim>\<open>reflection\<close> and \<^verbatim>\<open>finalize_answer\<close> are added to the executed
  nodes, \<^verbatim>\<open>web_research\<close> is not traversed again, and the counter stays where it was.
\<close>

theorem good_quality_ends_run:
  assumes "run_at (build_graph_with (web_research_with search) (reflection_with score)) j s0
             = Inr c"
    and "cur c = ''reflection''"
    and "reflection_with score (state c) = Inr s"
    and "get_iteration_count s < 3"
    and "float_le (Finite 0.75) (get_quality_score s)"
  shows "evaluate_research s = ''finalize_answer''
         \<and> (\<exists>c'. run (build_graph_with (web_research_with search) (reflection_with score))
                    (j + 2 + k) s0 = Some (Inr c')
                \<and> cur c' = END
                \<and> executed c' = executed c @ [''reflection'', ''finalize_answer'']
                \<and> count_list (executed c') ''web_research''
                    = count_list (executed c) ''web_research''
                \<and> iteration_count (state c') = iteration_count s)"
proof -
  let ?g = "wired (web_research_with search) (reflection_with score)"
  let ?built = "build_graph_with (web_research_with search) (reflection_with score)"
  from assms(5) have "\<not> float_lt (get_quality_score s) (Finite 0.75)"
    by (cases "get_quality_score s") simp_all
  then have route: "evaluate_research s = ''finalize_answer''"
    by (simp add: evaluate_research_def Let_def)
  define c1 where "c1 = \<lparr>cur = ''finalize_answer'', state = s,
                         executed = executed c @ [''reflection'']\<rparr>"
  have one: "step ?g c = Inr c1"
    using assms(2,3) route by (simp add: step_reflection c1_def)
  from finish [of c1 "web_research_with search" "reflection_with score" 0] obtain s' where
    s': "steps ?g (Suc 0) c1
           = Inr \<lparr>cur = END, state = s', executed = executed c1 @ [''finalize_answer'']\<rparr>"
        "iteration_count s' = iteration_count s"
    by (auto simp add: c1_def)
  let ?c' = "\<lparr>cur = END, state = s',
               executed = executed c @ [''reflection'', ''finalize_answer'']\<rparr>"
  have two: "steps ?g 2 c = Inr ?c'"
    using assms(2) one s'(1) by (simp add: eval_nat_numeral c1_def)
  from assms(1) have st: "steps ?g j (initial s0) = Inr c"
    by (simp add: run_at_wired)
  have "steps ?g (j + 2) (initial s0) = Inr ?c'"
    by (simp only: steps_add st two sum.case)
  then have "run ?built (j + 2) s0 = Some (Inr ?c')"
    by (simp add: run_def run_at_wired)
  then have "run ?built (j + 2 + k) s0 = Some (Inr ?c')"
    by (rule run_fuel_mono) simp
  moreover have "count_list (executed ?c') ''web_research''
                    = count_list (executed c) ''web_research''"
    by simp
  ultimately show ?thesis using route s'(2) by auto
qed

theorem good_quality_ends_run_witness:
  "run_at build_graph 5 scenario_input = Inr scenario_second_reflection
   \<and> cur scenario_second_reflection = ''reflection''
   \<and> reflection (state scenario_second_reflection)
       = Inr ((state scenario_second_reflection)
               \<lparr>reflections := Some [''Quality assessment of iteration 1'',
                                      ''Quality assessment of iteration 2''],
                quality_score := Some (Finite 0.8)\<rparr>)
   \<and> float_le (Finite 0.75) (Finite 0.8)
   \<and> (\<exists>c'. run build_graph 7 scenario_input = Some (Inr c')
          \<and> cur c' = END
          \<and> executed c' = executed scenario_second_reflection
                            @ [''reflection'', ''finalize_answer'']
          \<and> count_list (executed c') ''web_research'' = 2
          \<and> iteration_count (state c') = Some 2)"
proof -
  let ?s = "(state scenario_second_reflection)
               \<lparr>reflections := Some [''Quality assessment of iteration 1'',
                                      ''Quality assessment of iteration 2''],
                quality_score := Some (Finite 0.8)\<rparr>"
  have 1: "run_at (build_graph_with (web_research_with reference_search)
             (reflection_with reference_score)) 5 scenario_input
           = Inr scenario_second_reflection"
    using scenario_point by (simp add: build_graph_reference)
  have 2: "cur scenario_second_reflection = ''reflection''"
    by (simp add: scenario_second_reflection_def)
  have 3: "reflection (state scenario_second_reflection) = Inr ?s"
    by (simp add: reflection_def scenario_second_reflection_def get_reflections_def
        str_int_def str_nat.simps Let_def)
  then have r3: "reflection_with reference_score (state scenario_second_reflection) = Inr ?s"
    by (simp add: reflection_reference)
  have 4: "get_iteration_count ?s < 3"
    by (simp add: scenario_second_reflection_def get_iteration_count_def)
  have 5: "float_le (Finite 0.75) (get_quality_score ?s)"
    by (simp add: get_quality_score_def)
  have 6: "float_le (Finite 0.75) (Finite 0.8)" by simp
  have 7: "count_list (executed scenario_second_reflection) ''web_research'' = 2"
    by (simp add: scenario_second_reflection_def)
  have 8: "iteration_count ?s = Some 2"
    by (simp add: scenario_second_reflection_def)
  from good_quality_ends_run [OF 1 2 r3 4 5, of 0] scenario_point 2 3 6 7 8
  show ?thesis by (simp add: build_graph_reference)
qed

subsection \<open>The counter and the lists along a run\<close>

text \<open>
  The counter is not the number of executions of \<^verbatim>\<open>web_research\<close> in every run: in
  the run on \<^verbatim>\<open>{"query": "test", "iteration_count": 5}\<close> the node has executed once
  and the counter is 6.
\<close>

theorem count_counterexample:
  "run build_graph 5 preset_input = Some (Inr preset_final)
   \<and> get_iteration_count (state preset_final)
       \<noteq> int (count_list (executed preset_final) ''web_research'')
   \<and> get_iteration_count (state preset_final) = 6
   \<and> count_list (executed preset_final) ''web_research'' = 1"
  by (simp add: preset_run preset_final_def get_iteration_count_def)

text \<open>
  \<^bold>\<open>C3\<close> (amended). Every execution of \<^verbatim>\<open>web_research\<close> sets the counter to one
  more than it was (0 when absent). Along every run the counter never decreases, and
  at every point it is its value in the initial mapping (0 when absent) plus the number
  of completed executions of \<^verbatim>\<open>web_research\<close>; so it is that number in a run that
  starts with the counter absent or 0.
\<close>

theorem iteration_count_tracks_web_research:
  assumes "run_at build_graph k s0 = Inr c" and "j \<le> k" and "run_at build_graph j s0 = Inr b"
    and "web_research st = Inr st'"
  shows "iteration_count st' = Some (get_iteration_count st + 1)
         \<and> get_iteration_count (state b) \<le> get_iteration_count (state c)
         \<and> get_iteration_count (state c)
             = get_iteration_count s0 + int (count_list (executed c) ''web_research'')"
proof -
  from assms(4) have "web_research_with reference_search st = Inr st'"
    by (simp add: web_research_reference)
  from web_research_with_effect [OF this]
  have 1: "iteration_count st' = Some (get_iteration_count st + 1)"
    by blast
  from run_at_later [OF assms(2,3,1)] obtain g where
    g: "build_graph = Inr g" "steps g (k - j) b = Inr c"
    by blast
  from g(1) have "g = wired (web_research_with reference_search) (reflection_with reference_score)"
    by (simp add: build_graph_reference build_graph_with_wired)
  with g(2) steps_monotone
  have 2: "get_iteration_count (state b) \<le> get_iteration_count (state c)"
    by blast
  from assms(1) have "run_at (build_graph_with (web_research_with reference_search)
      (reflection_with reference_score)) k s0 = Inr c"
    by (simp add: build_graph_reference)
  from run_counts [OF this] 1 2 show ?thesis by simp
qed

theorem iteration_count_tracks_web_research_witness:
  "run_at build_graph 5 scenario_input = Inr scenario_second_reflection
   \<and> (0::nat) \<le> 5
   \<and> run_at build_graph 0 scenario_input = Inr (initial scenario_input)
   \<and> web_research scenario_input
       = Inr (scenario_input\<lparr>iteration_count := Some 1,
                search_results :=
                  Some [''Research finding 1 for: test'', ''Research detail 1 for: test'']\<rparr>)
   \<and> get_iteration_count (state (initial scenario_input))
       \<le> get_iteration_count (state scenario_second_reflection)
   \<and> get_iteration_count (state scenario_second_reflection)
       = get_iteration_count scenario_input
         + int (count_list (executed scenario_second_reflection) ''web_research'')
   \<and> count_list (executed scenario_second_reflection) ''web_research'' = 2"
proof -
  have 1: "(0::nat) \<le> 5" by simp
  have 2: "run_at build_graph 0 scenario_input = Inr (initial scenario_input)"
    by (simp add: run_at_def build_graph_def build_graph_with_wired)
  have 3: "web_research scenario_input
       = Inr (scenario_input\<lparr>iteration_count := Some 1,
                search_results :=
                  Some [''Research finding 1 for: test'', ''Research detail 1 for: test'']\<rparr>)"
    by (simp add: web_research_def scenario_input_def get_iteration_count_def
        get_search_results_def str_int_def str_nat.simps Let_def)
  have 4: "count_list (executed scenario_second_reflection) ''web_research'' = 2"
    by (simp add: scenario_second_reflection_def)
  from iteration_count_tracks_web_research [OF scenario_point 1 2 3] scenario_point 1 2 3 4
  show ?thesis by blast
qed

text \<open>
  \<^verbatim>\<open>web_research\<close> appends two results per execution: at the end of scenario A the
  node has executed twice and \<^verbatim>\<open>search_results\<close> has four entries.
\<close>

theorem lengths_counterexample:
  "run build_graph 7 scenario_input = Some (Inr scenario_final)
   \<and> length (get_search_results (state scenario_final))
       \<noteq> count_list (executed scenario_final) ''web_research''
   \<and> length (get_search_results (state scenario_final)) = 4
   \<and> count_list (executed scenario_final) ''web_research'' = 2"
  by (simp add: scenario_run scenario_final_def get_search_results_def)

text \<open>
  \<^bold>\<open>C4\<close> (amended). Along every run the lengths of \<^verbatim>\<open>search_results\<close> and
  \<^verbatim>\<open>reflections\<close> never decrease. At every point \<^verbatim>\<open>search_results\<close> has its initial
  length plus two entries for each completed execution of \<^verbatim>\<open>web_research\<close>, and
  \<^verbatim>\<open>reflections\<close> has its initial length plus one entry for each completed execution of
  \<^verbatim>\<open>reflection\<close>.
\<close>

theorem list_lengths_track_executions:
  assumes "run_at build_graph k s0 = Inr c" and "j \<le> k" and "run_at build_graph j s0 = Inr b"
  shows "length (get_search_results (state b)) \<le> length (get_search_results (state c))
         \<and> length (get_reflections (state b)) \<le> length (get_reflections (state c))
         \<and> length (get_search_results (state c))
             = length (get_search_results s0)
               + 2 * count_list (executed c) ''web_research''
         \<and> length (get_reflections (state c))
             = length (get_reflections s0) + count_list (executed c) ''reflection''"
proof -
  from run_at_later [OF assms(2,3,1)] obtain g where
    g: "build_graph = Inr g" "steps g (k - j) b = Inr c"
    by blast
  from g(1) have "g = wired (web_research_with reference_search) (reflection_with reference_score)"
    by (simp add: build_graph_reference build_graph_with_wired)
  with g(2) steps_monotone
  have 1: "length (get_search_results (state b)) \<le> length (get_search_results (state c))
         \<and> length (get_reflections (state b)) \<le> length (get_reflections (state c))"
    by blast
  from assms(1) have "run_at (build_graph_with (web_research_with reference_search)
      (reflection_with reference_score)) k s0 = Inr c"
    by (simp add: build_graph_reference)
  from run_counts [OF this] run_search_results [OF assms(1)] 1 show ?thesis by simp
qed

theorem list_lengths_track_executions_witness:
  "run_at build_graph 5 scenario_input = Inr scenario_second_reflection
   \<and> (0::nat) \<le> 5
   \<and> run_at build_graph 0 scenario_input = Inr (initial scenario_input)
   \<and> length (get_search_results (state (initial scenario_input)))
       \<le> length (get_search_results (state scenario_second_reflection))
   \<and> length (get_reflections (state (initial scenario_input)))
       \<le> length (get_reflections (state scenario_second_reflection))
   \<and> length (get_search_results (state scenario_second_reflection))
       = length (get_search_results scenario_input)
         + 2 * count_list (executed scenario_second_reflection) ''web_research''
   \<and> length (get_reflections (state scenario_second_reflection))
       = length (get_reflections scenario_input)
         + count_list (executed scenario_second_reflection) ''reflection''
   \<and> length (get_search_results (state scenario_second_reflection)) = 4
   \<and> length (get_reflections (state scenario_second_reflection)) = 1"
proof -
  have 1: "(0::nat) \<le> 5" by simp
  have 2: "run_at build_graph 0 scenario_input = Inr (initial scenario_input)"
    by (simp add: run_at_def build_graph_def build_graph_with_wired)
  have 3: "length (get_search_results (state scenario_second_reflection)) = 4"
    by (simp add: scenario_second_reflection_def get_search_results_def)
  have 4: "length (get_reflections (state scenario_second_reflection)) = 1"
    by (simp add: scenario_second_reflection_def get_reflections_def)
  from list_lengths_track_executions [OF scenario_point 1 2] scenario_point 1 2 3 4
  show ?thesis by blast
qed

subsection \<open>The end-to-end scenario\<close>

text \<open>
  \<^bold>\<open>C5.\<close> Scenario A: the run on \<^verbatim>\<open>{"query": "test"}\<close> reaches END after seven
  iterations of the engine loop (and so for any larger fuel), having executed
  \<^verbatim>\<open>generate_query\<close>, \<^verbatim>\<open>web_research\<close>, \<^verbatim>\<open>reflection\<close>, \<^verbatim>\<open>web_research\<close>,
  \<^verbatim>\<open>reflection\<close>, \<^verbatim>\<open>finalize_answer\<close> in this order; the final state has
  \<^verbatim>\<open>iteration_count == 2\<close>, four search results and two reflections.
\<close>

theorem scenario_A:
  "run build_graph (7 + k) scenario_input = Some (Inr scenario_final)
   \<and> cur scenario_final = END
   \<and> executed scenario_final
       = [''generate_query'', ''web_research'', ''reflection'',
          ''web_research'', ''reflection'', ''finalize_answer'']
   \<and> iteration_count (state scenario_final) = Some 2
   \<and> map_option length (search_results (state scenario_final)) = Some 4
   \<and> map_option length (reflections (state scenario_final)) = Some 2"
proof -
  have "run build_graph (7 + k) scenario_input = Some (Inr scenario_final)"
    by (rule run_fuel_mono [OF scenario_run]) simp
  then show ?thesis by (simp add: scenario_final_def)
qed

end
